theory Spec2Isabelle
  imports Complex_Main
begin

section \<open>Time values and the calendar of the Date object\<close>

text \<open>
  \<^verbatim>\<open>ProposalTimeline.tsx\<close> computes with the runtime's \<^verbatim>\<open>Date\<close> objects. A Date holds a
  time value: a number of milliseconds since 1970-01-01T00:00:00Z, or NaN (an "Invalid
  Date"). A time value is modelled as \<open>int option\<close>, \<open>None\<close> being NaN. The calendar
  functions below follow the ECMAScript definitions of the same names. The local time
  zone is a parameter \<open>tza\<close>: a constant offset in milliseconds (daylight saving changes
  are not modelled).
\<close>

type_synonym time_value = "int option"

definition msPerDay :: int where
  "msPerDay = 86400000"

definition Day :: "int \<Rightarrow> int" where
  "Day t = t div msPerDay"

definition TimeWithinDay :: "int \<Rightarrow> int" where
  "TimeWithinDay t = t mod msPerDay"

definition DaysInYear :: "int \<Rightarrow> int" where
  "DaysInYear y =
     (if y mod 4 \<noteq> 0 then 365
      else if y mod 100 \<noteq> 0 then 366
      else if y mod 400 \<noteq> 0 then 365
      else 366)"

definition DayFromYear :: "int \<Rightarrow> int" where
  "DayFromYear y =
     365 * (y - 1970) + (y - 1969) div 4 - (y - 1901) div 100 + (y - 1601) div 400"

text \<open>
  \<open>YearFromTime t\<close> is the largest year \<open>y\<close> with \<open>DayFromYear y \<le> Day t\<close>. It is
  computed by a search downwards from a year that is not below the answer.
\<close>

function year_search :: "int \<Rightarrow> int \<Rightarrow> int" where
  "year_search d y = (if DayFromYear y \<le> d then y else year_search d (y - 1))"
  by pat_completeness auto
termination
proof (relation "measure (\<lambda>(d, y). nat (DayFromYear y - d))")
  show "wf (measure (\<lambda>(d, y). nat (DayFromYear y - d)))"
    by simp
next
  fix d y :: int
  assume above: "\<not> DayFromYear y \<le> d"
  have a: "(y - 1 - 1969) div 4 \<le> (y - 1969) div 4"
    by (rule zdiv_mono1) simp_all
  have c: "(y - 1 - 1601) div 400 \<le> (y - 1601) div 400"
    by (rule zdiv_mono1) simp_all
  have "(y - 1901) div 100 \<le> (y - 1 - 1901 + 100) div 100"
    by (rule zdiv_mono1) simp_all
  then have b: "(y - 1901) div 100 \<le> (y - 1 - 1901) div 100 + 1"
    by simp
  have lin: "p' \<le> p \<Longrightarrow> q \<le> q' + 1 \<Longrightarrow> r' \<le> r \<Longrightarrow>
      365 * (y - 1 - 1970) + p' - q' + r' < 365 * (y - 1970) + p - q + (r::int)" for p p' q q' r r'
    by simp
  have "DayFromYear (y - 1) < DayFromYear y"
    unfolding DayFromYear_def by (rule lin [OF a b c])
  with above show "((d, y - 1), (d, y)) \<in> measure (\<lambda>(d, y). nat (DayFromYear y - d))"
    by simp
qed

definition YearFromDay :: "int \<Rightarrow> int" where
  "YearFromDay d = year_search d (1970 + (if 0 \<le> d then d div 365 else d div 366))"

definition YearFromTime :: "int \<Rightarrow> int" where
  "YearFromTime t = YearFromDay (Day t)"

definition leap_of_year :: "int \<Rightarrow> int" where
  "leap_of_year y = (if DaysInYear y = 365 then 0 else 1)"

definition InLeapYear :: "int \<Rightarrow> int" where
  "InLeapYear t = leap_of_year (YearFromTime t)"

definition DayWithinYear :: "int \<Rightarrow> int" where
  "DayWithinYear t = Day t - DayFromYear (YearFromTime t)"

definition MonthFromTime :: "int \<Rightarrow> int" where
  "MonthFromTime t =
     (let d = DayWithinYear t; l = InLeapYear t in
      if d < 31 then 0
      else if d < 59 + l then 1
      else if d < 90 + l then 2
      else if d < 120 + l then 3
      else if d < 151 + l then 4
      else if d < 181 + l then 5
      else if d < 212 + l then 6
      else if d < 243 + l then 7
      else if d < 273 + l then 8
      else if d < 304 + l then 9
      else if d < 334 + l then 10
      else 11)"

text \<open>The number of days of a year that precede the first day of month \<open>m\<close> (0 to 11).\<close>

definition DayFromMonth :: "int \<Rightarrow> int \<Rightarrow> int" where
  "DayFromMonth m l =
     (if m = 0 then 0
      else if m = 1 then 31
      else if m = 2 then 59 + l
      else if m = 3 then 90 + l
      else if m = 4 then 120 + l
      else if m = 5 then 151 + l
      else if m = 6 then 181 + l
      else if m = 7 then 212 + l
      else if m = 8 then 243 + l
      else if m = 9 then 273 + l
      else if m = 10 then 304 + l
      else 334 + l)"

definition DateFromTime :: "int \<Rightarrow> int" where
  "DateFromTime t = DayWithinYear t - DayFromMonth (MonthFromTime t) (InLeapYear t) + 1"

text \<open>
  \<open>MakeDay year month date\<close>: the day number of the first day of month \<open>month mod 12\<close>
  of year \<open>year + month div 12\<close>, plus \<open>date - 1\<close>. A date beyond the end of the month
  runs over into the following month.
\<close>

definition MakeDay :: "int \<Rightarrow> int \<Rightarrow> int \<Rightarrow> int" where
  "MakeDay year month date =
     (let ym = year + month div 12; mn = month mod 12 in
      DayFromYear ym + DayFromMonth mn (leap_of_year ym) + date - 1)"

definition MakeDate :: "int \<Rightarrow> int \<Rightarrow> int" where
  "MakeDate day time = day * msPerDay + time"

definition TimeClip :: "int \<Rightarrow> time_value" where
  "TimeClip t = (if \<bar>t\<bar> \<le> 8640000000000000 then Some t else None)"

definition LocalTime :: "int \<Rightarrow> int \<Rightarrow> int" where
  "LocalTime tza t = t + tza"

definition UTC :: "int \<Rightarrow> int \<Rightarrow> int" where
  "UTC tza t = t - tza"

subsection \<open>The methods of Date that the component calls\<close>

text \<open>\<^verbatim>\<open>date.getMonth()\<close> and \<^verbatim>\<open>date.getFullYear()\<close>: NaN on an Invalid Date.\<close>

definition getMonth :: "int \<Rightarrow> time_value \<Rightarrow> int option" where
  "getMonth tza tv = (case tv of None \<Rightarrow> None | Some t \<Rightarrow> Some (MonthFromTime (LocalTime tza t)))"

definition getFullYear :: "int \<Rightarrow> time_value \<Rightarrow> int option" where
  "getFullYear tza tv = (case tv of None \<Rightarrow> None | Some t \<Rightarrow> Some (YearFromTime (LocalTime tza t)))"

text \<open>
  \<^verbatim>\<open>date.setMonth(month)\<close>, returning the new time value of the Date. The day of the
  month and the time within the day are kept; the result is NaN when the Date is
  invalid, when \<open>month\<close> is NaN, or when the new time value is out of range.
\<close>

definition setMonth :: "int \<Rightarrow> time_value \<Rightarrow> int option \<Rightarrow> time_value" where
  "setMonth tza tv month =
     (case tv of
        None \<Rightarrow> None
      | Some t0 \<Rightarrow>
          (case month of
             None \<Rightarrow> None
           | Some m \<Rightarrow>
               (let t = LocalTime tza t0;
                    newDate = MakeDate (MakeDay (YearFromTime t) m (DateFromTime t)) (TimeWithinDay t)
                in TimeClip (UTC tza newDate))))"

text \<open>\<^verbatim>\<open>n + i\<close> on numbers, where \<open>n\<close> may be NaN.\<close>

definition num_plus :: "int option \<Rightarrow> int \<Rightarrow> int option" where
  "num_plus n i = (case n of None \<Rightarrow> None | Some k \<Rightarrow> Some (k + i))"

text \<open>\<^verbatim>\<open>a <= b\<close> on two Dates compares their time values; it is false when either is NaN.\<close>

definition date_le :: "time_value \<Rightarrow> time_value \<Rightarrow> bool" where
  "date_le a b = (case a of None \<Rightarrow> False | Some x \<Rightarrow> (case b of None \<Rightarrow> False | Some y \<Rightarrow> x \<le> y))"

text \<open>\<^verbatim>\<open>n.toString()\<close> for an integral number: its decimal digits, with a sign when negative.\<close>

fun digits_of :: "nat \<Rightarrow> string" where
  "digits_of n =
     (if n < 10 then [''0123456789'' ! n]
      else digits_of (n div 10) @ [''0123456789'' ! (n mod 10)])"

declare digits_of.simps [simp del]

definition Number_toString :: "int \<Rightarrow> string" where
  "Number_toString i = (if i < 0 then CHR ''-'' # digits_of (nat (- i)) else digits_of (nat i))"

section \<open>The data of the component\<close>

text \<open>
  The fields of \<^verbatim>\<open>Circuit\<close> (declared in \<^verbatim>\<open>../../types\<close>) that the component reads. A
  contract date is a string, or absent (\<open>None\<close>: null or undefined). A cost is a
  JavaScript number, modelled as a real: rounding of sums is not modelled.
\<close>

record Circuit =
  type :: string
  monthlycost :: real
  contract_start_date :: "string option"
  contract_end_date :: "string option"

record MonthData =
  month :: string
  existingMpls :: real
  existingDia :: real
  existingBroadband :: real
  existingLte :: real
  proposedMpls :: real
  proposedDia :: real
  proposedBroadband :: real
  proposedLte :: real

section \<open>generateMonthLabels\<close>

text \<open>One pass of the loop body: the label pushed for index \<open>i\<close>.\<close>

definition month_label :: "int \<Rightarrow> time_value \<Rightarrow> nat \<Rightarrow> string" where
  "month_label tza startDate i =
     (let date = setMonth tza startDate (num_plus (getMonth tza startDate) (int i)) in
      if getMonth tza date = Some 0
      then (case getFullYear tza date of None \<Rightarrow> ''NaN'' | Some y \<Rightarrow> Number_toString y)
      else '''')"

function label_loop :: "int \<Rightarrow> time_value \<Rightarrow> nat \<Rightarrow> string list \<Rightarrow> string list" where
  "label_loop tza startDate i months =
     (if i < 36 then label_loop tza startDate (i + 1) (months @ [month_label tza startDate i])
      else months)"
  by pat_completeness auto
termination
  by (relation "measure (\<lambda>(tza, startDate, i, months). 36 - i)") auto

declare label_loop.simps [simp del]

definition generateMonthLabels :: "int \<Rightarrow> time_value \<Rightarrow> string list" where
  "generateMonthLabels tza startDate = label_loop tza startDate 0 []"

section \<open>isCircuitActive\<close>

text \<open>
  \<^verbatim>\<open>new Date(s)\<close> on a string parses it with the runtime's \<^verbatim>\<open>Date.parse\<close>, which is the
  parameter \<open>P\<close>: it yields a time value, NaN (\<open>None\<close>) for a string it does not recognise.
  It never throws. A contract date that is null, undefined or the empty string is falsy:
  \<^verbatim>\<open>!circuit.contract_start_date\<close> returns early, and a falsy end date gives
  \<^verbatim>\<open>endDate = null\<close> without parsing.
\<close>

definition isCircuitActive :: "(string \<Rightarrow> time_value) \<Rightarrow> Circuit \<Rightarrow> time_value \<Rightarrow> bool" where
  "isCircuitActive P circuit monthDate =
     (case contract_start_date circuit of
        None \<Rightarrow> False
      | Some s \<Rightarrow>
          if s = [] then False
          else
            (let startDate = P s;
                 endDate = (case contract_end_date circuit of
                              None \<Rightarrow> None
                            | Some e \<Rightarrow> if e = [] then None else Some (P e))
             in case endDate of
                  None \<Rightarrow> date_le startDate monthDate
                | Some e \<Rightarrow> date_le startDate monthDate \<and> date_le monthDate e))"

section \<open>The aggregation in ProposalTimeline\<close>

text \<open>\<^verbatim>\<open>s.replace(/[^a-zA-Z]/g, '')\<close>: only the letters A to Z and a to z are kept.\<close>

definition is_letter :: "char \<Rightarrow> bool" where
  "is_letter c =
     (let n = (of_char c :: nat) in (65 \<le> n \<and> n \<le> 90) \<or> (97 \<le> n \<and> n \<le> 122))"

definition strip_non_letters :: "string \<Rightarrow> string" where
  "strip_non_letters s = filter is_letter s"

text \<open>
  \<^verbatim>\<open>if (key in monthData) { monthData[key] += cost }\<close>. The keys built by the component
  begin with \<^verbatim>\<open>existing\<close> or \<^verbatim>\<open>proposed\<close>, so of the properties of \<^verbatim>\<open>monthData\<close> (its own
  nine, and those it inherits) only the eight numeric fields can be named by one.
\<close>

definition add_cost :: "string \<Rightarrow> real \<Rightarrow> MonthData \<Rightarrow> MonthData" where
  "add_cost key cost monthData =
     (if key = ''existingMpls'' then monthData\<lparr>existingMpls := existingMpls monthData + cost\<rparr>
      else if key = ''existingDia'' then monthData\<lparr>existingDia := existingDia monthData + cost\<rparr>
      else if key = ''existingBroadband''
        then monthData\<lparr>existingBroadband := existingBroadband monthData + cost\<rparr>
      else if key = ''existingLte'' then monthData\<lparr>existingLte := existingLte monthData + cost\<rparr>
      else if key = ''proposedMpls'' then monthData\<lparr>proposedMpls := proposedMpls monthData + cost\<rparr>
      else if key = ''proposedDia'' then monthData\<lparr>proposedDia := proposedDia monthData + cost\<rparr>
      else if key = ''proposedBroadband''
        then monthData\<lparr>proposedBroadband := proposedBroadband monthData + cost\<rparr>
      else if key = ''proposedLte'' then monthData\<lparr>proposedLte := proposedLte monthData + cost\<rparr>
      else monthData)"

text \<open>The body of each \<^verbatim>\<open>forEach\<close>, with the prefix of its key.\<close>

definition accumulate ::
  "(string \<Rightarrow> time_value) \<Rightarrow> string \<Rightarrow> time_value \<Rightarrow> MonthData \<Rightarrow> Circuit \<Rightarrow> MonthData" where
  "accumulate P prefix monthDate monthData circuit =
     (if isCircuitActive P circuit monthDate
      then add_cost (prefix @ strip_non_letters (type circuit)) (monthlycost circuit) monthData
      else monthData)"

text \<open>The representative date of the month at \<open>index\<close>.\<close>

definition month_date :: "int \<Rightarrow> time_value \<Rightarrow> nat \<Rightarrow> time_value" where
  "month_date tza startDate index =
     setMonth tza startDate (num_plus (getMonth tza startDate) (int index))"

text \<open>The callback of \<^verbatim>\<open>months.map\<close>.\<close>

definition month_bucket ::
  "(string \<Rightarrow> time_value) \<Rightarrow> int \<Rightarrow> Circuit list \<Rightarrow> Circuit list \<Rightarrow> time_value
     \<Rightarrow> string \<Rightarrow> nat \<Rightarrow> MonthData" where
  "month_bucket P tza activeCircuits proposedCircuits startDate label index =
     (let monthDate = month_date tza startDate index;
          monthData = \<lparr>month = label,
                       existingMpls = 0, existingDia = 0, existingBroadband = 0, existingLte = 0,
                       proposedMpls = 0, proposedDia = 0, proposedBroadband = 0, proposedLte = 0\<rparr>;
          monthData = foldl (accumulate P ''existing'' monthDate) monthData activeCircuits;
          monthData = foldl (accumulate P ''proposed'' monthDate) monthData proposedCircuits
      in monthData)"

text \<open>
  The value of \<^verbatim>\<open>data\<close> once both queries have delivered their lists; \<open>now\<close> is the time
  value of \<^verbatim>\<open>new Date()\<close>, the anchor.
\<close>

definition aggregate ::
  "(string \<Rightarrow> time_value) \<Rightarrow> int \<Rightarrow> Circuit list \<Rightarrow> Circuit list \<Rightarrow> int \<Rightarrow> MonthData list" where
  "aggregate P tza activeCircuits proposedCircuits now =
     (let startDate = Some now;
          months = generateMonthLabels tza startDate
      in map (\<lambda>(label, index). month_bucket P tza activeCircuits proposedCircuits startDate label index)
           (zip months [0..<length months]))"

text \<open>The \<^verbatim>\<open>useMemo\<close> callback: an empty series while either list is still missing.\<close>

definition timeline_data ::
  "(string \<Rightarrow> time_value) \<Rightarrow> int \<Rightarrow> Circuit list option \<Rightarrow> Circuit list option \<Rightarrow> int
     \<Rightarrow> MonthData list" where
  "timeline_data P tza activeData proposedData now =
     (case activeData of
        None \<Rightarrow> []
      | Some activeCircuits \<Rightarrow>
          (case proposedData of
             None \<Rightarrow> []
           | Some proposedCircuits \<Rightarrow> aggregate P tza activeCircuits proposedCircuits now))"

section \<open>Date strings of the form YYYY-MM-DD\<close>

text \<open>
  The one format of \<^verbatim>\<open>Date.parse\<close> used in the examples: the date-only form of the
  ECMAScript date-time string format, which denotes midnight UTC of that day. This
  instance of the parser yields NaN for every other string.
\<close>

definition digit_val :: "char \<Rightarrow> int option" where
  "digit_val c =
     (let n = (of_char c :: nat) in if 48 \<le> n \<and> n \<le> 57 then Some (int n - 48) else None)"

fun digits_val :: "int \<Rightarrow> string \<Rightarrow> int option" where
  "digits_val acc [] = Some acc"
| "digits_val acc (c # cs) =
     (case digit_val c of None \<Rightarrow> None | Some v \<Rightarrow> digits_val (10 * acc + v) cs)"

definition parse_iso_date :: "string \<Rightarrow> time_value" where
  "parse_iso_date s =
     (if length s = 10 \<and> s ! 4 = CHR ''-'' \<and> s ! 7 = CHR ''-'' then
        (case (digits_val 0 (take 4 s), digits_val 0 (take 2 (drop 5 s)), digits_val 0 (drop 8 s)) of
           (Some y, Some m, Some d) \<Rightarrow>
             if 1 \<le> m \<and> m \<le> 12 \<and> 1 \<le> d \<and> d \<le> 31
             then TimeClip (MakeDate (MakeDay y (m - 1) d) 0)
             else None
         | _ \<Rightarrow> None)
      else None)"

section \<open>Notions used in the statements\<close>

text \<open>
  An anchor from which all 36 representative dates are valid Dates: \<^verbatim>\<open>setMonth\<close> moves
  the anchor forward by at most 35 months of at most 31 days.
\<close>

definition anchor_in_range :: "int \<Rightarrow> bool" where
  "anchor_in_range now =
     (- 8640000000000000 \<le> now \<and> now + 35 * 31 * msPerDay \<le> 8640000000000000)"

text \<open>
  A contract date is falsy when it is absent (null or undefined) or the empty string:
  the test \<^verbatim>\<open>!s\<close> of the component.
\<close>

definition falsy :: "string option \<Rightarrow> bool" where
  "falsy s = (case s of None \<Rightarrow> True | Some v \<Rightarrow> v = [])"

text \<open>
  The calendar month that is \<open>i\<close> months after the month of the anchor, in local time:
  its year and its month index (0 is January).
\<close>

definition anchor_month_plus :: "int \<Rightarrow> int \<Rightarrow> nat \<Rightarrow> int \<times> int" where
  "anchor_month_plus tza now i =
     (let t = LocalTime tza now; k = MonthFromTime t + int i
      in (YearFromTime t + k div 12, k mod 12))"

text \<open>The eight numeric fields of \<^verbatim>\<open>MonthData\<close>, and \<^verbatim>\<open>monthData[key]\<close> for one of them.\<close>

definition numeric_fields :: "string list" where
  "numeric_fields =
     [''existingMpls'', ''existingDia'', ''existingBroadband'', ''existingLte'',
      ''proposedMpls'', ''proposedDia'', ''proposedBroadband'', ''proposedLte'']"

definition field_of :: "string \<Rightarrow> MonthData \<Rightarrow> real" where
  "field_of key monthData =
     (if key = ''existingMpls'' then existingMpls monthData
      else if key = ''existingDia'' then existingDia monthData
      else if key = ''existingBroadband'' then existingBroadband monthData
      else if key = ''existingLte'' then existingLte monthData
      else if key = ''proposedMpls'' then proposedMpls monthData
      else if key = ''proposedDia'' then proposedDia monthData
      else if key = ''proposedBroadband'' then proposedBroadband monthData
      else if key = ''proposedLte'' then proposedLte monthData
      else 0)"

section \<open>Lemmas about the calendar\<close>

lemma div_step:
  fixes x k :: int
  assumes k: "0 < k"
  shows "(x + 1) div k = (if (x + 1) mod k = 0 then x div k + 1 else x div k)"
proof -
  have x: "k * (x div k) + x mod k = x" by simp
  have r: "0 \<le> x mod k" "x mod k < k" using k by simp_all
  show ?thesis
  proof (cases "x mod k = k - 1")
    case True
    have "k * (x div k + 1) = k * (x div k) + k" by (simp add: algebra_simps)
    with True x have e: "x + 1 = k * (x div k + 1) + 0" by linarith
    have "(x + 1) div k = x div k + 1" using k by (intro int_div_pos_eq [OF e]) simp_all
    moreover have "(x + 1) mod k = 0" using k by (intro int_mod_pos_eq [OF e]) simp_all
    ultimately show ?thesis by simp
  next
    case False
    then have lt: "x mod k + 1 < k" using r by simp
    have e: "x + 1 = k * (x div k) + (x mod k + 1)" using x by linarith
    have "(x + 1) div k = x div k" using r lt by (intro int_div_pos_eq [OF e]) simp_all
    moreover have "(x + 1) mod k = x mod k + 1" using r lt by (intro int_mod_pos_eq [OF e]) simp_all
    ultimately show ?thesis using r by simp
  qed
qed

lemma mod_step:
  fixes x k :: int
  assumes k: "0 < k"
  shows "(x + 1) mod k = (if x mod k = k - 1 then 0 else x mod k + 1)"
proof -
  have x: "k * (x div k) + x mod k = x" by simp
  have r: "0 \<le> x mod k" "x mod k < k" using k by simp_all
  show ?thesis
  proof (cases "x mod k = k - 1")
    case True
    have "k * (x div k + 1) = k * (x div k) + k" by (simp add: algebra_simps)
    with True x have e: "x + 1 = k * (x div k + 1) + 0" by linarith
    have "(x + 1) mod k = 0" using k by (intro int_mod_pos_eq [OF e]) simp_all
    with True show ?thesis by simp
  next
    case False
    then have lt: "x mod k + 1 < k" using r by simp
    have e: "x + 1 = k * (x div k) + (x mod k + 1)" using x by linarith
    have "(x + 1) mod k = x mod k + 1" using r lt by (intro int_mod_pos_eq [OF e]) simp_all
    with False show ?thesis by simp
  qed
qed

lemma mod_shift4: "(y - 1968) mod 4 = y mod (4::int)"
  using mod_mult_self2 [of "y - 1968" 4 492] by simp

lemma mod_shift100: "(y - 1900) mod 100 = y mod (100::int)"
  using mod_mult_self2 [of "y - 1900" 100 19] by simp

lemma mod_shift400: "(y - 1600) mod 400 = y mod (400::int)"
  using mod_mult_self2 [of "y - 1600" 400 4] by simp

lemma mod100_imp_mod4: "y mod 100 = 0 \<Longrightarrow> y mod 4 = (0::int)"
proof -
  assume "y mod 100 = 0"
  then have "100 dvd y" by (simp add: dvd_eq_mod_eq_0)
  moreover have "(4::int) dvd 100" by simp
  ultimately have "4 dvd y" by (rule dvd_trans [rotated])
  then show ?thesis by (simp add: dvd_eq_mod_eq_0)
qed

lemma mod400_imp_mod100: "y mod 400 = 0 \<Longrightarrow> y mod 100 = (0::int)"
proof -
  assume "y mod 400 = 0"
  then have "400 dvd y" by (simp add: dvd_eq_mod_eq_0)
  moreover have "(100::int) dvd 400" by simp
  ultimately have "100 dvd y" by (rule dvd_trans [rotated])
  then show ?thesis by (simp add: dvd_eq_mod_eq_0)
qed

lemma DaysInYear_cases: "DaysInYear y = 365 \<or> DaysInYear y = 366"
  by (simp add: DaysInYear_def)

lemma DaysInYear_leap: "DaysInYear y = 365 + leap_of_year y"
  using DaysInYear_cases [of y] by (auto simp: leap_of_year_def)

lemma leap_of_year_cases: "leap_of_year y = 0 \<or> leap_of_year y = 1"
  by (simp add: leap_of_year_def)

lemma DayFromYear_Suc: "DayFromYear (y + 1) = DayFromYear y + DaysInYear y"
proof -
  have a: "(y - 1968) div 4 = (y - 1969) div 4 + (if y mod 4 = 0 then 1 else 0)"
    using div_step [of 4 "y - 1969"] mod_shift4 [of y] by simp
  have b: "(y - 1900) div 100 = (y - 1901) div 100 + (if y mod 100 = 0 then 1 else 0)"
    using div_step [of 100 "y - 1901"] mod_shift100 [of y] by simp
  have c: "(y - 1600) div 400 = (y - 1601) div 400 + (if y mod 400 = 0 then 1 else 0)"
    using div_step [of 400 "y - 1601"] mod_shift400 [of y] by simp
  have "DayFromYear (y + 1) =
      365 * (y - 1969) + (y - 1968) div 4 - (y - 1900) div 100 + (y - 1600) div 400"
    by (simp add: DayFromYear_def)
  also have "\<dots> = DayFromYear y + DaysInYear y"
    unfolding a b c DayFromYear_def DaysInYear_def
    using mod100_imp_mod4 [of y] mod400_imp_mod100 [of y] by (simp split: if_splits)
  finally show ?thesis .
qed

lemma DayFromYear_1970: "DayFromYear 1970 = 0"
  by (simp add: DayFromYear_def)

lemma DayFromYear_lower_up: "1970 \<le> y \<Longrightarrow> 365 * (y - 1970) \<le> DayFromYear y"
proof (induction y rule: int_ge_induct)
  case base
  show ?case by (simp add: DayFromYear_1970)
next
  case (step i)
  then show ?case
    using DayFromYear_Suc [of i] DaysInYear_cases [of i] by auto
qed

lemma DayFromYear_lower_down: "y \<le> 1970 \<Longrightarrow> 366 * (y - 1970) \<le> DayFromYear y"
proof (induction y rule: int_le_induct)
  case base
  show ?case by (simp add: DayFromYear_1970)
next
  case (step i)
  then show ?case
    using DayFromYear_Suc [of "i - 1"] DaysInYear_cases [of "i - 1"] by auto
qed

lemma DayFromYear_less: "y < y' \<Longrightarrow> DayFromYear y < DayFromYear y'"
proof (induction y' rule: int_gr_induct)
  case base
  show ?case using DayFromYear_Suc [of y] DaysInYear_cases [of y] by auto
next
  case (step i)
  then show ?case using DayFromYear_Suc [of i] DaysInYear_cases [of i] by auto
qed

lemma DayFromYear_le: "y \<le> y' \<Longrightarrow> DayFromYear y \<le> DayFromYear y'"
  using DayFromYear_less [of y y'] by (cases "y = y'") auto

lemma year_search_sound:
  "d < DayFromYear (y0 + 1) \<Longrightarrow>
   DayFromYear (year_search d y0) \<le> d \<and> d < DayFromYear (year_search d y0 + 1)"
proof (induction d y0 rule: year_search.induct)
  case (1 d y0)
  show ?case
  proof (cases "DayFromYear y0 \<le> d")
    case True
    with "1.prems" show ?thesis by simp
  next
    case False
    then have "d < DayFromYear (y0 - 1 + 1)" by simp
    then have "DayFromYear (year_search d (y0 - 1)) \<le> d \<and>
        d < DayFromYear (year_search d (y0 - 1) + 1)"
      using "1.IH" False by blast
    with False show ?thesis by simp
  qed
qed

lemma less_mult_div_Suc:
  fixes d k :: int
  assumes "0 < k"
  shows "d < k * (d div k + 1)"
proof -
  have "d = k * (d div k) + d mod k" by simp
  moreover have "d mod k < k" using assms by simp
  moreover have "k * (d div k + 1) = k * (d div k) + k" by (simp add: algebra_simps)
  ultimately show ?thesis by linarith
qed

lemma year_start_above: "d < DayFromYear (1970 + (if 0 \<le> d then d div 365 else d div 366) + 1)"
proof (cases "0 \<le> d")
  case True
  have "0 \<le> d div 365" using True by (simp add: pos_imp_zdiv_nonneg_iff)
  then have "365 * (d div 365 + 1) \<le> DayFromYear (1970 + d div 365 + 1)"
    using DayFromYear_lower_up [of "1970 + d div 365 + 1"] by simp
  moreover have "d < 365 * (d div 365 + 1)"
    by (rule less_mult_div_Suc) simp
  ultimately show ?thesis using True by simp
next
  case False
  then have "d div 366 < 0" by (simp add: div_neg_pos_less0)
  then have "366 * (d div 366 + 1) \<le> DayFromYear (1970 + d div 366 + 1)"
    using DayFromYear_lower_down [of "1970 + d div 366 + 1"] by simp
  moreover have "d < 366 * (d div 366 + 1)"
    by (rule less_mult_div_Suc) simp
  ultimately show ?thesis using False by simp
qed

lemma YearFromDay_bounds:
  "DayFromYear (YearFromDay d) \<le> d" "d < DayFromYear (YearFromDay d + 1)"
  using year_search_sound [OF year_start_above [of d]] by (simp_all add: YearFromDay_def)

lemma YearFromDay_unique:
  assumes "DayFromYear y \<le> d" and "d < DayFromYear (y + 1)"
  shows "YearFromDay d = y"
proof -
  have "DayFromYear y < DayFromYear (YearFromDay d + 1)"
    using assms(1) YearFromDay_bounds(2) [of d] by simp
  then have a: "y \<le> YearFromDay d"
    using DayFromYear_le [of "YearFromDay d + 1" y] by (cases "y \<le> YearFromDay d") auto
  have "DayFromYear (YearFromDay d) < DayFromYear (y + 1)"
    using assms(2) YearFromDay_bounds(1) [of d] by simp
  then have "YearFromDay d \<le> y"
    using DayFromYear_le [of "y + 1" "YearFromDay d"] by (cases "YearFromDay d \<le> y") auto
  with a show ?thesis by simp
qed

lemma DayWithinYear_bounds:
  "0 \<le> DayWithinYear t" "DayWithinYear t < 365 + InLeapYear t"
proof -
  have "Day t < DayFromYear (YearFromTime t) + DaysInYear (YearFromTime t)"
    using YearFromDay_bounds(2) [of "Day t"] DayFromYear_Suc [of "YearFromDay (Day t)"]
    by (simp add: YearFromTime_def)
  then show "DayWithinYear t < 365 + InLeapYear t"
    by (simp add: DayWithinYear_def InLeapYear_def DaysInYear_leap)
  show "0 \<le> DayWithinYear t"
    using YearFromDay_bounds(1) [of "Day t"] by (simp add: DayWithinYear_def YearFromTime_def)
qed

lemma InLeapYear_cases: "InLeapYear t = 0 \<or> InLeapYear t = 1"
  by (simp add: InLeapYear_def leap_of_year_cases)

lemma MonthFromTime_bounds: "0 \<le> MonthFromTime t" "MonthFromTime t \<le> 11"
  by (simp_all add: MonthFromTime_def Let_def)

lemma DateFromTime_bounds: "1 \<le> DateFromTime t" "DateFromTime t \<le> 31"
proof -
  have b: "0 \<le> DayWithinYear t" "DayWithinYear t < 365 + InLeapYear t"
    by (rule DayWithinYear_bounds)+
  have l: "InLeapYear t = 0 \<or> InLeapYear t = 1"
    by (rule InLeapYear_cases)
  show "1 \<le> DateFromTime t"
    using b l by (auto simp: DateFromTime_def MonthFromTime_def DayFromMonth_def Let_def)
  show "DateFromTime t \<le> 31"
    using b l by (auto simp: DateFromTime_def MonthFromTime_def DayFromMonth_def Let_def)
qed

lemma MakeDay_of_time: "MakeDay (YearFromTime t) (MonthFromTime t) (DateFromTime t) = Day t"
proof -
  have "MonthFromTime t div 12 = 0" "MonthFromTime t mod 12 = MonthFromTime t"
    using MonthFromTime_bounds [of t] by simp_all
  then show ?thesis
    by (simp add: MakeDay_def DateFromTime_def DayWithinYear_def InLeapYear_def)
qed

lemma DayFromMonth_bounds:
  assumes "0 \<le> m" "m \<le> 11" "l = 0 \<or> l = 1"
  shows "0 \<le> DayFromMonth m l" "DayFromMonth m l \<le> 334 + l" "m \<noteq> 0 \<Longrightarrow> 31 \<le> DayFromMonth m l"
  using assms by (auto simp: DayFromMonth_def)

lemma Day_MakeDate: "0 \<le> r \<Longrightarrow> r < msPerDay \<Longrightarrow> Day (MakeDate d r) = d"
proof -
  assume r: "0 \<le> r" "r < msPerDay"
  have "MakeDate d r = msPerDay * d + r" by (simp add: MakeDate_def)
  then show ?thesis unfolding Day_def using r by (intro int_div_pos_eq) simp_all
qed

lemma TimeWithinDay_bounds: "0 \<le> TimeWithinDay t" "TimeWithinDay t < msPerDay"
  by (simp_all add: TimeWithinDay_def msPerDay_def)

lemma Day_TimeWithinDay: "Day t * msPerDay + TimeWithinDay t = t"
  by (simp add: Day_def TimeWithinDay_def)

lemma year_month_of_MakeDay:
  assumes dt: "1 \<le> dt" "dt \<le> 31" and t: "Day t = MakeDay y m dt"
  shows "YearFromTime t = y + m div 12" "MonthFromTime t = 0 \<longleftrightarrow> m mod 12 = 0"
proof -
  define ym where "ym = y + m div 12"
  define mn where "mn = m mod 12"
  define l where "l = leap_of_year ym"
  have mn: "0 \<le> mn" "mn \<le> 11" by (simp_all add: mn_def)
  have l: "l = 0 \<or> l = 1" by (simp add: l_def leap_of_year_cases)
  have D: "Day t = DayFromYear ym + DayFromMonth mn l + dt - 1"
    using t by (simp add: MakeDay_def Let_def ym_def mn_def l_def)
  have lo: "DayFromYear ym \<le> Day t"
    using D DayFromMonth_bounds(1) [OF mn l] dt by simp
  have hi: "Day t < DayFromYear (ym + 1)"
    using D DayFromMonth_bounds(2) [OF mn l] dt
    by (simp add: DayFromYear_Suc DaysInYear_leap l_def)
  have y: "YearFromTime t = ym"
    unfolding YearFromTime_def by (rule YearFromDay_unique [OF lo hi])
  then show "YearFromTime t = y + m div 12" by (simp add: ym_def)
  have w: "DayWithinYear t = DayFromMonth mn l + dt - 1"
    using D y by (simp add: DayWithinYear_def)
  show "MonthFromTime t = 0 \<longleftrightarrow> m mod 12 = 0"
  proof (cases "mn = 0")
    case True
    then have "DayWithinYear t < 31" using w dt by (simp add: DayFromMonth_def)
    then have "MonthFromTime t = 0" by (simp add: MonthFromTime_def Let_def)
    with True show ?thesis by (simp add: mn_def)
  next
    case False
    then have "31 \<le> DayWithinYear t" using w dt DayFromMonth_bounds(3) [OF mn l] by simp
    then have "MonthFromTime t \<noteq> 0" by (simp add: MonthFromTime_def Let_def)
    with False show ?thesis by (simp add: mn_def)
  qed
qed

lemma MakeDay_step:
  "28 \<le> MakeDay y (m + 1) dt - MakeDay y m dt" "MakeDay y (m + 1) dt - MakeDay y m dt \<le> 31"
proof -
  define mn where "mn = m mod 12"
  define ym where "ym = y + m div 12"
  have mn: "0 \<le> mn" "mn < 12" by (simp_all add: mn_def)
  have l: "leap_of_year ym = 0 \<or> leap_of_year ym = 1" by (rule leap_of_year_cases)
  have m1: "(m + 1) mod 12 = (if mn = 11 then 0 else mn + 1)"
    using mod_step [of 12 m] by (simp add: mn_def)
  have d1: "(m + 1) div 12 = (if mn = 11 then m div 12 + 1 else m div 12)"
    using div_step [of 12 m] m1 mn by (simp add: mn_def split: if_splits)
  have a: "MakeDay y m dt = DayFromYear ym + DayFromMonth mn (leap_of_year ym) + dt - 1"
    by (simp add: MakeDay_def Let_def ym_def mn_def)
  have b: "MakeDay y (m + 1) dt =
      (if mn = 11 then DayFromYear (ym + 1) + dt - 1
       else DayFromYear ym + DayFromMonth (mn + 1) (leap_of_year ym) + dt - 1)"
    unfolding MakeDay_def Let_def m1 d1
    by (simp add: ym_def DayFromMonth_def add.assoc)
  have "28 \<le> MakeDay y (m + 1) dt - MakeDay y m dt \<and> MakeDay y (m + 1) dt - MakeDay y m dt \<le> 31"
  proof (cases "mn = 11")
    case True
    then show ?thesis
      using l unfolding a b
      by (auto simp: DayFromMonth_def DayFromYear_Suc DaysInYear_leap)
  next
    case False
    consider "mn = 0" | "mn = 1" | "mn = 2" | "mn = 3" | "mn = 4" | "mn = 5" | "mn = 6"
      | "mn = 7" | "mn = 8" | "mn = 9" | "mn = 10"
      using mn False by atomize_elim arith
    then show ?thesis
      using l unfolding a b
      by cases (auto simp: DayFromMonth_def)
  qed
  then show "28 \<le> MakeDay y (m + 1) dt - MakeDay y m dt"
    "MakeDay y (m + 1) dt - MakeDay y m dt \<le> 31" by simp_all
qed

lemma MakeDay_steps:
  "28 * int n \<le> MakeDay y (m + int n) dt - MakeDay y m dt \<and>
   MakeDay y (m + int n) dt - MakeDay y m dt \<le> 31 * int n"
proof (induction n)
  case 0
  show ?case by simp
next
  case (Suc n)
  have s: "int (Suc n) = int n + 1" by simp
  show ?case
    unfolding s distrib_left
    using Suc MakeDay_step [of y "m + int n" dt, unfolded add.assoc] by linarith
qed

lemma MakeDay_strict_mono:
  assumes "i < j"
  shows "MakeDay y (m + int i) dt < MakeDay y (m + int j) dt"
proof -
  obtain k where k: "j = i + Suc k" using assms less_iff_Suc_add by auto
  have e: "m + int j = m + int i + int (Suc k)" using k by simp
  have "28 * int (Suc k) \<le> MakeDay y (m + int i + int (Suc k)) dt - MakeDay y (m + int i) dt"
    using MakeDay_steps [of "Suc k" y "m + int i" dt] by blast
  moreover have "0 < 28 * int (Suc k)" by simp
  ultimately show ?thesis unfolding e by linarith
qed

section \<open>Lemmas about the series of months\<close>

lemma label_loop_eq:
  "i \<le> 36 \<Longrightarrow> label_loop tza sd i ms = ms @ map (month_label tza sd) [i..<36]"
proof (induction tza sd i ms rule: label_loop.induct)
  case (1 tza sd i ms)
  show ?case
  proof (cases "i < 36")
    case True
    then have "label_loop tza sd (i + 1) (ms @ [month_label tza sd i]) =
        (ms @ [month_label tza sd i]) @ map (month_label tza sd) [i + 1..<36]"
      using "1.IH" by simp
    moreover have "[i..<36] = i # [i + 1..<36]"
      using True by (simp add: upt_conv_Cons)
    ultimately show ?thesis using True by (simp add: label_loop.simps [of tza sd i ms])
  next
    case False
    then have "label_loop tza sd i ms = ms"
      by (subst label_loop.simps) simp
    with False "1.prems" show ?thesis by simp
  qed
qed

lemma generateMonthLabels_eq:
  "generateMonthLabels tza sd = map (month_label tza sd) [0..<36]"
  unfolding generateMonthLabels_def using label_loop_eq [of 0 tza sd "[]"]
  by (simp del: upt_rec_numeral)

lemma aggregate_eq:
  "aggregate P tza es ps now =
     map (\<lambda>i. month_bucket P tza es ps (Some now) (month_label tza (Some now) i) i) [0..<36]"
  by (simp add: aggregate_def Let_def generateMonthLabels_eq zip_map1 zip_same_conv_map comp_def
      del: upt_rec_numeral)

lemma aggregate_length: "length (aggregate P tza es ps now) = 36"
  by (simp add: aggregate_eq del: upt_rec_numeral)

lemma aggregate_nth:
  "j < 36 \<Longrightarrow> aggregate P tza es ps now ! j =
     month_bucket P tza es ps (Some now) (month_label tza (Some now) j) j"
  by (simp add: aggregate_eq del: upt_rec_numeral)

lemma month_date_local:
  assumes "anchor_in_range now" and "i < 36" and t_def: "t = LocalTime tza now"
  shows "month_date tza (Some now) i =
           Some (now + (MakeDay (YearFromTime t) (MonthFromTime t + int i) (DateFromTime t)
                          - MakeDay (YearFromTime t) (MonthFromTime t) (DateFromTime t)) * msPerDay)"
proof -
  define D where "D = MakeDay (YearFromTime t) (MonthFromTime t + int i) (DateFromTime t)"
  define D0 where "D0 = MakeDay (YearFromTime t) (MonthFromTime t) (DateFromTime t)"
  have D0: "D0 = Day t" by (simp add: D0_def MakeDay_of_time)
  have steps: "0 \<le> D - D0" "D - D0 \<le> 31 * int i"
    using MakeDay_steps [of i "YearFromTime t" "MonthFromTime t" "DateFromTime t"]
    by (simp_all add: D_def D0_def)
  have "t = D0 * msPerDay + TimeWithinDay t"
    using Day_TimeWithinDay [of t] D0 by simp
  then have u: "UTC tza (MakeDate D (TimeWithinDay t)) = now + (D - D0) * msPerDay"
    by (simp add: UTC_def MakeDate_def t_def LocalTime_def algebra_simps)
  have "(D - D0) * msPerDay \<le> (31 * int i) * msPerDay"
    using steps(2) by (intro mult_right_mono) (simp_all add: msPerDay_def)
  also have "\<dots> \<le> 35 * 31 * msPerDay"
    using assms(2) by (simp add: msPerDay_def)
  finally have hi: "(D - D0) * msPerDay \<le> 35 * 31 * msPerDay" .
  have lo: "0 \<le> (D - D0) * msPerDay"
    using steps(1) by (simp add: msPerDay_def)
  have "\<bar>now + (D - D0) * msPerDay\<bar> \<le> 8640000000000000"
    using assms(1) hi lo unfolding anchor_in_range_def by linarith
  then have "TimeClip (now + (D - D0) * msPerDay) = Some (now + (D - D0) * msPerDay)"
    by (simp add: TimeClip_def)
  then show ?thesis
    using u by (simp add: month_date_def setMonth_def getMonth_def num_plus_def Let_def
        t_def [symmetric] D_def [symmetric] D0_def [symmetric])
qed

lemma month_date_Day:
  assumes "anchor_in_range now" and "i < 36" and t_def: "t = LocalTime tza now"
  obtains u where "month_date tza (Some now) i = Some u"
    and "Day (LocalTime tza u) = MakeDay (YearFromTime t) (MonthFromTime t + int i) (DateFromTime t)"
proof -
  define D where "D = MakeDay (YearFromTime t) (MonthFromTime t + int i) (DateFromTime t)"
  define u where "u = now + (D - Day t) * msPerDay"
  have a: "month_date tza (Some now) i = Some u"
    using month_date_local [OF assms] by (simp add: u_def D_def MakeDay_of_time)
  have "LocalTime tza u = (Day t * msPerDay + TimeWithinDay t) + (D - Day t) * msPerDay"
    unfolding Day_TimeWithinDay by (simp add: u_def LocalTime_def t_def)
  also have "\<dots> = MakeDate D (TimeWithinDay t)"
    by (simp add: MakeDate_def algebra_simps)
  finally have "Day (LocalTime tza u) = D"
    using Day_MakeDate [OF TimeWithinDay_bounds [of t], of D] by simp
  with a show ?thesis using that by (simp add: D_def)
qed

lemma month_label_anchor:
  assumes "anchor_in_range now" and "i < 36" and t_def: "t = LocalTime tza now"
  shows "month_label tza (Some now) i =
           (if (MonthFromTime t + int i) mod 12 = 0
            then Number_toString (YearFromTime t + (MonthFromTime t + int i) div 12)
            else '''')"
proof -
  obtain u where u: "month_date tza (Some now) i = Some u"
    and d: "Day (LocalTime tza u) = MakeDay (YearFromTime t) (MonthFromTime t + int i) (DateFromTime t)"
    using month_date_Day [OF assms] by blast
  have ym: "YearFromTime (LocalTime tza u) = YearFromTime t + (MonthFromTime t + int i) div 12"
    "MonthFromTime (LocalTime tza u) = 0 \<longleftrightarrow> (MonthFromTime t + int i) mod 12 = 0"
    using year_month_of_MakeDay [OF DateFromTime_bounds [of t] d] by simp_all
  have "month_label tza (Some now) i =
      (if getMonth tza (Some u) = Some 0
       then (case getFullYear tza (Some u) of None \<Rightarrow> ''NaN'' | Some y \<Rightarrow> Number_toString y)
       else '''')"
    using u by (simp add: month_label_def month_date_def)
  then show ?thesis
    using ym by (simp add: getMonth_def getFullYear_def)
qed

lemma date_le_month_date:
  assumes "anchor_in_range now" and "i < 36" and "j < 36"
  shows "date_le (month_date tza (Some now) i) (month_date tza (Some now) j) \<longleftrightarrow> i \<le> j"
proof -
  define t where "t = LocalTime tza now"
  define f where "f = (\<lambda>k. MakeDay (YearFromTime t) (MonthFromTime t + int k) (DateFromTime t))"
  have e: "month_date tza (Some now) k = Some (now + (f k - f 0) * msPerDay)" if "k < 36" for k
    using month_date_local [OF assms(1) that t_def] by (simp add: f_def)
  have mono: "f a < f b" if "a < b" for a b
    using MakeDay_strict_mono [OF that] by (simp add: f_def)
  have "f i \<le> f j \<longleftrightarrow> i \<le> j"
  proof (cases "i \<le> j")
    case True
    then show ?thesis using mono [of i j] by (cases "i = j") auto
  next
    case False
    then show ?thesis using mono [of j i] by auto
  qed
  then show ?thesis
    using e [OF assms(2)] e [OF assms(3)] by (simp add: date_le_def msPerDay_def)
qed

lemma four_digits:
  assumes "1000 \<le> y" and "y \<le> 9999"
  shows "length (Number_toString y) = 4"
proof -
  define n where "n = nat y"
  have n: "1000 \<le> n" "n \<le> 9999" using assms by (simp_all add: n_def)
  have a: "\<not> n < 10" "\<not> n div 10 < 10" "\<not> n div 10 div 10 < 10" "n div 10 div 10 div 10 < 10"
    using n by simp_all
  have "length (digits_of n) = 4"
    by (simp add: digits_of.simps [of n] digits_of.simps [of "n div 10"]
        digits_of.simps [of "n div 10 div 10"] digits_of.simps [of "n div 10 div 10 div 10"] a)
  then show ?thesis using assms by (simp add: Number_toString_def n_def)
qed

section \<open>Lemmas about the accumulation\<close>

lemma add_cost_unrecognized: "key \<notin> set numeric_fields \<Longrightarrow> add_cost key cost m = m"
  by (simp add: add_cost_def numeric_fields_def)

lemma month_add_cost: "month (add_cost key cost m) = month m"
  by (simp add: add_cost_def)

lemma field_of_add_cost:
  "field_of k (add_cost key cost m) =
     field_of k m + (if key = k \<and> k \<in> set numeric_fields then cost else 0)"
  by (simp add: field_of_def add_cost_def numeric_fields_def)

lemma field_of_accumulate:
  "field_of k (accumulate P prefix d m c) =
     field_of k m +
       (if isCircuitActive P c d \<and> prefix @ strip_non_letters (type c) = k \<and> k \<in> set numeric_fields
        then monthlycost c else 0)"
  by (simp add: accumulate_def field_of_add_cost)

lemma accumulate_inactive: "\<not> isCircuitActive P c d \<Longrightarrow> accumulate P prefix d m c = m"
  by (simp add: accumulate_def)

lemma accumulate_unrecognized:
  "prefix @ strip_non_letters (type c) \<notin> set numeric_fields \<Longrightarrow> accumulate P prefix d m c = m"
  by (simp add: accumulate_def add_cost_unrecognized)

lemma field_of_foldl_shift:
  "field_of k m' = field_of k m + x \<Longrightarrow>
   field_of k (foldl (accumulate P prefix d) m' cs) =
     field_of k (foldl (accumulate P prefix d) m cs) + x"
proof (induction cs arbitrary: m m')
  case Nil
  then show ?case by simp
next
  case (Cons c cs)
  have "field_of k (accumulate P prefix d m' c) = field_of k (accumulate P prefix d m c) + x"
    using Cons.prems by (simp add: field_of_accumulate)
  then show ?case using Cons.IH by simp
qed

lemma field_of_foldl_other:
  assumes "\<And>c :: Circuit. prefix @ strip_non_letters (type c) \<noteq> k"
  shows "field_of k (foldl (accumulate P prefix d) m cs) = field_of k m"
proof (induction cs arbitrary: m)
  case Nil
  show ?case by simp
next
  case (Cons c cs)
  have "field_of k (accumulate P prefix d m c) = field_of k m"
    using assms [of c] by (simp add: field_of_accumulate)
  then show ?case using Cons.IH by simp
qed

lemma field_of_foldl_nonneg:
  assumes "0 \<le> field_of k m" and "\<forall>c \<in> set cs. 0 \<le> monthlycost c"
  shows "0 \<le> field_of k (foldl (accumulate P prefix d) m cs)"
  using assms
proof (induction cs arbitrary: m)
  case Nil
  then show ?case by simp
next
  case (Cons c cs)
  have "0 \<le> field_of k (accumulate P prefix d m c)"
    using Cons.prems by (simp add: field_of_accumulate)
  then show ?case using Cons.IH Cons.prems by simp
qed

lemma month_foldl: "month (foldl (accumulate P prefix d) m cs) = month m"
  by (induction cs arbitrary: m) (simp_all add: accumulate_def month_add_cost)

lemma aggregate_skip_existing:
  assumes "\<And>d m. accumulate P ''existing'' d m c = m"
  shows "aggregate P tza (xs @ c # ys) ps now = aggregate P tza (xs @ ys) ps now"
  using assms by (simp add: aggregate_eq month_bucket_def del: upt_rec_numeral)

lemma aggregate_skip_proposed:
  assumes "\<And>d m. accumulate P ''proposed'' d m c = m"
  shows "aggregate P tza es (xs @ c # ys) now = aggregate P tza es (xs @ ys) now"
  using assms by (simp add: aggregate_eq month_bucket_def del: upt_rec_numeral)

lemma isCircuitActive_unfold:
  "isCircuitActive P c d =
     (if falsy (contract_start_date c) then False
      else if falsy (contract_end_date c) then date_le (P (the (contract_start_date c))) d
      else date_le (P (the (contract_start_date c))) d \<and> date_le d (P (the (contract_end_date c))))"
  by (simp add: isCircuitActive_def falsy_def Let_def split: option.splits)

lemma date_le_Some: "date_le (Some a) (Some b) \<longleftrightarrow> a \<le> b"
  by (simp add: date_le_def)

lemma date_le_None: "\<not> date_le None d" "\<not> date_le d None"
  by (simp_all add: date_le_def split: option.splits)

section \<open>The activity predicate\<close>

lemma parse_2024_01_15: "parse_iso_date ''2024-01-15'' = Some 1705276800000"
  by code_simp

lemma parse_2024_03_15: "parse_iso_date ''2024-03-15'' = Some 1710460800000"
  by code_simp

text \<open>
  Claim C3. The activity predicate is false when the start date is absent (or the empty
  string). With a start date that parses to the time value \<open>a\<close> and no end date, it holds
  exactly when \<open>a \<le> m\<close>, \<open>m\<close> being the time value of the month date. With an end date
  as well, parsing to \<open>b\<close>, it holds exactly when \<open>a \<le> m \<and> m \<le> b\<close>: both bounds are
  inclusive.
\<close>

theorem isCircuitActive_by_cases:
  fixes c :: Circuit
  shows "(falsy (contract_start_date c) \<longrightarrow> \<not> isCircuitActive P c d) \<and>
         (contract_start_date c = Some s \<and> s \<noteq> [] \<and> P s = Some a \<and> falsy (contract_end_date c)
            \<longrightarrow> (isCircuitActive P c (Some m) \<longleftrightarrow> a \<le> m)) \<and>
         (contract_start_date c = Some s \<and> s \<noteq> [] \<and> P s = Some a \<and>
          contract_end_date c = Some e \<and> e \<noteq> [] \<and> P e = Some b
            \<longrightarrow> (isCircuitActive P c (Some m) \<longleftrightarrow> a \<le> m \<and> m \<le> b))"
  by (simp add: isCircuitActive_unfold falsy_def date_le_Some)

theorem isCircuitActive_by_cases_witness:
  "\<not> isCircuitActive parse_iso_date
       \<lparr>type = ''Mpls'', monthlycost = 100, contract_start_date = None, contract_end_date = None\<rparr>
       (Some 1705276800000) \<and>
   isCircuitActive parse_iso_date
       \<lparr>type = ''Mpls'', monthlycost = 100, contract_start_date = Some ''2024-01-15'',
        contract_end_date = None\<rparr>
       (Some 1705276800000) \<and>
   isCircuitActive parse_iso_date
       \<lparr>type = ''Mpls'', monthlycost = 100, contract_start_date = Some ''2024-01-15'',
        contract_end_date = Some ''2024-03-15''\<rparr>
       (Some 1710460800000) \<and>
   \<not> isCircuitActive parse_iso_date
       \<lparr>type = ''Mpls'', monthlycost = 100, contract_start_date = Some ''2024-01-15'',
        contract_end_date = Some ''2024-03-15''\<rparr>
       (Some 1710460800001)"
  using
    isCircuitActive_by_cases [of
      "\<lparr>type = ''Mpls'', monthlycost = 100, contract_start_date = None, contract_end_date = None\<rparr>"
      parse_iso_date "Some 1705276800000"]
    isCircuitActive_by_cases [of
      "\<lparr>type = ''Mpls'', monthlycost = 100, contract_start_date = Some ''2024-01-15'',
        contract_end_date = None\<rparr>"
      parse_iso_date "Some 1705276800000" "''2024-01-15''" 1705276800000 1705276800000]
    isCircuitActive_by_cases [of
      "\<lparr>type = ''Mpls'', monthlycost = 100, contract_start_date = Some ''2024-01-15'',
        contract_end_date = Some ''2024-03-15''\<rparr>"
      parse_iso_date "Some 1710460800000" "''2024-01-15''" 1705276800000 1710460800000
      "''2024-03-15''" 1710460800000]
    isCircuitActive_by_cases [of
      "\<lparr>type = ''Mpls'', monthlycost = 100, contract_start_date = Some ''2024-01-15'',
        contract_end_date = Some ''2024-03-15''\<rparr>"
      parse_iso_date "Some 1710460800001" "''2024-01-15''" 1705276800000 1710460800001
      "''2024-03-15''" 1710460800000]
  by (simp add: falsy_def parse_2024_01_15 parse_2024_03_15)

text \<open>
  Claim C7. An item whose two contract dates are both present and parse to time values
  with the start after the end is active for no month date; the predicate returns false,
  and nothing is thrown.
\<close>

theorem start_after_end_never_active:
  fixes c :: Circuit
  assumes "contract_start_date c = Some s" and "s \<noteq> []"
    and "contract_end_date c = Some e" and "e \<noteq> []"
    and "P s = Some a" and "P e = Some b" and "b < a"
  shows "\<not> isCircuitActive P c d"
  using assms by (cases d) (simp_all add: isCircuitActive_unfold falsy_def date_le_def)

theorem start_after_end_never_active_witness:
  "\<not> isCircuitActive parse_iso_date
       \<lparr>type = ''Mpls'', monthlycost = 100, contract_start_date = Some ''2024-03-15'',
        contract_end_date = Some ''2024-01-15''\<rparr>
       (Some 1707955200000)"
  by (rule start_after_end_never_active [where s = "''2024-03-15''" and e = "''2024-01-15''"
        and a = 1710460800000 and b = 1705276800000])
    (simp_all add: parse_2024_01_15 parse_2024_03_15)

section \<open>Items that contribute nothing\<close>

text \<open>
  Claim C6. An item without a start date (absent, or the empty string) contributes
  nothing: whichever list it is in, the whole series of 36 buckets is the one computed
  without it, for every anchor and whatever the other items are.
\<close>

theorem no_start_date_contributes_nothing:
  fixes c :: Circuit
  assumes "falsy (contract_start_date c)"
  shows "aggregate P tza (xs @ c # ys) ps now = aggregate P tza (xs @ ys) ps now \<and>
         aggregate P tza es (xs @ c # ys) now = aggregate P tza es (xs @ ys) now"
proof -
  have "\<not> isCircuitActive P c d" for d
    using assms by (simp add: isCircuitActive_unfold)
  then have "accumulate P prefix d m c = m" for prefix d m
    by (rule accumulate_inactive)
  then show ?thesis
    using aggregate_skip_existing [of P c tza xs ys ps now]
      aggregate_skip_proposed [of P c tza es xs ys now] by simp
qed

theorem no_start_date_contributes_nothing_witness:
  "aggregate parse_iso_date 0
     ([] @ \<lparr>type = ''Mpls'', monthlycost = 100, contract_start_date = None,
            contract_end_date = Some ''2024-03-15''\<rparr> # []) [] 1705276800000 =
   aggregate parse_iso_date 0 ([] @ []) [] 1705276800000"
  using no_start_date_contributes_nothing [of
      "\<lparr>type = ''Mpls'', monthlycost = 100, contract_start_date = None,
        contract_end_date = Some ''2024-03-15''\<rparr>" parse_iso_date 0 "[]" "[]" "[]" 1705276800000]
  by (simp add: falsy_def)

text \<open>
  Claim C4. An item whose key (\<^verbatim>\<open>existing\<close> or \<^verbatim>\<open>proposed\<close>, followed by the letters of
  its type) is none of the eight numeric fields contributes nothing, active or not: the
  series is the one computed without the item, and nothing is thrown. The type
  \<^verbatim>\<open>Dedicated Internet Access\<close> is stripped to \<^verbatim>\<open>DedicatedInternetAccess\<close>, which gives
  no field with either prefix.
\<close>

theorem unrecognized_type_contributes_nothing:
  fixes c :: Circuit
  shows "(''existing'' @ strip_non_letters (type c) \<notin> set numeric_fields \<longrightarrow>
            aggregate P tza (xs @ c # ys) ps now = aggregate P tza (xs @ ys) ps now) \<and>
         (''proposed'' @ strip_non_letters (type c) \<notin> set numeric_fields \<longrightarrow>
            aggregate P tza es (xs @ c # ys) now = aggregate P tza es (xs @ ys) now) \<and>
         strip_non_letters ''Dedicated Internet Access'' = ''DedicatedInternetAccess'' \<and>
         ''existing'' @ ''DedicatedInternetAccess'' \<notin> set numeric_fields \<and>
         ''proposed'' @ ''DedicatedInternetAccess'' \<notin> set numeric_fields"
proof (intro conjI impI)
  assume "''existing'' @ strip_non_letters (type c) \<notin> set numeric_fields"
  then have "accumulate P ''existing'' d m c = m" for d m
    by (rule accumulate_unrecognized)
  then show "aggregate P tza (xs @ c # ys) ps now = aggregate P tza (xs @ ys) ps now"
    by (rule aggregate_skip_existing)
next
  assume "''proposed'' @ strip_non_letters (type c) \<notin> set numeric_fields"
  then have "accumulate P ''proposed'' d m c = m" for d m
    by (rule accumulate_unrecognized)
  then show "aggregate P tza es (xs @ c # ys) now = aggregate P tza es (xs @ ys) now"
    by (rule aggregate_skip_proposed)
next
  show "strip_non_letters ''Dedicated Internet Access'' = ''DedicatedInternetAccess''"
    by (simp add: strip_non_letters_def is_letter_def)
next
  show "''existing'' @ ''DedicatedInternetAccess'' \<notin> set numeric_fields"
    by (simp add: numeric_fields_def)
next
  show "''proposed'' @ ''DedicatedInternetAccess'' \<notin> set numeric_fields"
    by (simp add: numeric_fields_def)
qed

theorem unrecognized_type_contributes_nothing_witness:
  "aggregate parse_iso_date 0
     ([] @ \<lparr>type = ''Dedicated Internet Access'', monthlycost = 100,
            contract_start_date = Some ''2024-01-15'', contract_end_date = None\<rparr> # [])
     [] 1705276800000 =
   aggregate parse_iso_date 0 ([] @ []) [] 1705276800000 \<and>
   isCircuitActive parse_iso_date
     \<lparr>type = ''Dedicated Internet Access'', monthlycost = 100,
      contract_start_date = Some ''2024-01-15'', contract_end_date = None\<rparr> (Some 1705276800000)"
  using unrecognized_type_contributes_nothing [of
      "\<lparr>type = ''Dedicated Internet Access'', monthlycost = 100,
        contract_start_date = Some ''2024-01-15'', contract_end_date = None\<rparr>"
      parse_iso_date 0 "[]" "[]" "[]" 1705276800000 "[]"]
  by (simp add: isCircuitActive_unfold falsy_def date_le_def parse_2024_01_15)

text \<open>
  Claim C8. A date string that \<^verbatim>\<open>new Date\<close> cannot parse gives an Invalid Date, and
  every comparison with it is false. So an item whose start date does not parse, or whose
  (non-empty) end date does not parse, is active for no month; the aggregation still
  returns its 36 buckets and they are the ones computed without the item. Nothing in
  the aggregation throws. (An end date that is the empty string is not parsed at all:
  the component takes it as absent.)
\<close>

theorem unparsable_dates_inactive:
  fixes c :: Circuit
  assumes "(\<exists>s. contract_start_date c = Some s \<and> P s = None) \<or>
           (\<exists>e. contract_end_date c = Some e \<and> e \<noteq> [] \<and> P e = None)"
  shows "\<not> isCircuitActive P c d \<and>
         length (aggregate P tza (xs @ c # ys) ps now) = 36 \<and>
         length (aggregate P tza es (xs @ c # ys) now) = 36 \<and>
         aggregate P tza (xs @ c # ys) ps now = aggregate P tza (xs @ ys) ps now \<and>
         aggregate P tza es (xs @ c # ys) now = aggregate P tza es (xs @ ys) now"
proof -
  have inactive: "\<not> isCircuitActive P c d" for d
    using assms by (auto simp: isCircuitActive_unfold falsy_def date_le_None Let_def)
  then have "accumulate P prefix d m c = m" for prefix d m
    by (rule accumulate_inactive)
  then show ?thesis
    using inactive aggregate_skip_existing [of P c tza xs ys ps now]
      aggregate_skip_proposed [of P c tza es xs ys now]
    by (simp add: aggregate_length)
qed

theorem unparsable_dates_inactive_witness:
  "parse_iso_date ''next spring'' = None \<and>
   \<not> isCircuitActive parse_iso_date
       \<lparr>type = ''Mpls'', monthlycost = 100, contract_start_date = Some ''2024-01-15'',
        contract_end_date = Some ''next spring''\<rparr> (Some 1705276800000) \<and>
   aggregate parse_iso_date 0
     ([] @ \<lparr>type = ''Mpls'', monthlycost = 100, contract_start_date = Some ''2024-01-15'',
            contract_end_date = Some ''next spring''\<rparr> # []) [] 1705276800000 =
   aggregate parse_iso_date 0 ([] @ []) [] 1705276800000"
proof -
  have p: "parse_iso_date ''next spring'' = None"
    by (simp add: parse_iso_date_def)
  then have "(\<exists>s. contract_start_date
                 \<lparr>type = ''Mpls'', monthlycost = 100, contract_start_date = Some ''2024-01-15'',
                  contract_end_date = Some ''next spring''\<rparr> = Some s \<and> parse_iso_date s = None) \<or>
             (\<exists>e. contract_end_date
                 \<lparr>type = ''Mpls'', monthlycost = 100, contract_start_date = Some ''2024-01-15'',
                  contract_end_date = Some ''next spring''\<rparr> = Some e \<and> e \<noteq> [] \<and>
                 parse_iso_date e = None)"
    by simp
  from unparsable_dates_inactive [OF this, of "Some 1705276800000" 0 "[]" "[]" "[]" 1705276800000 "[]"]
  show ?thesis using p by simp
qed

section \<open>The fields of a bucket\<close>

lemma field_of_selectors:
  "existingMpls m = field_of ''existingMpls'' m"
  "existingDia m = field_of ''existingDia'' m"
  "existingBroadband m = field_of ''existingBroadband'' m"
  "existingLte m = field_of ''existingLte'' m"
  "proposedMpls m = field_of ''proposedMpls'' m"
  "proposedDia m = field_of ''proposedDia'' m"
  "proposedBroadband m = field_of ''proposedBroadband'' m"
  "proposedLte m = field_of ''proposedLte'' m"
  by (simp_all add: field_of_def)

lemma bucket_existing_field:
  assumes "k \<in> set [''existingMpls'', ''existingDia'', ''existingBroadband'', ''existingLte'']"
  shows "field_of k (month_bucket P tza es ps sd l i) =
           field_of k (month_bucket P tza es [] sd l i)"
proof -
  have "field_of k (foldl (accumulate P ''proposed'' d) m ps) = field_of k m" for d m
    by (rule field_of_foldl_other) (use assms in auto)
  then show ?thesis
    by (simp add: month_bucket_def Let_def)
qed

lemma bucket_proposed_field:
  assumes "k \<in> set [''proposedMpls'', ''proposedDia'', ''proposedBroadband'', ''proposedLte'']"
  shows "field_of k (month_bucket P tza es ps sd l i) =
           field_of k (month_bucket P tza [] ps sd l i)"
proof -
  have a: "field_of k (foldl (accumulate P ''existing'' d) m es) = field_of k m" for d m
    by (rule field_of_foldl_other) (use assms in auto)
  have "field_of k (foldl (accumulate P ''proposed'' d) (foldl (accumulate P ''existing'' d) m es) ps) =
      field_of k (foldl (accumulate P ''proposed'' d) m ps)" for d m
    by (rule field_of_foldl_shift [where x = 0, simplified]) (rule a)
  then show ?thesis
    by (simp add: month_bucket_def Let_def)
qed

lemma aggregate_map_field:
  "map (field_of k) (aggregate P tza es ps now) =
     map (\<lambda>i. field_of k (month_bucket P tza es ps (Some now) (month_label tza (Some now) i) i))
       [0..<36]"
  by (simp add: aggregate_eq comp_def del: upt_rec_numeral)

text \<open>
  Claim C10. For every anchor, the four \<^verbatim>\<open>existing\<close> fields of every bucket are the same
  whatever the list of proposed items is, and the four \<^verbatim>\<open>proposed\<close> fields are the same
  whatever the list of existing items is: a pass writes only fields with its own prefix.
\<close>

theorem existing_and_proposed_fields_separate:
  "map existingMpls (aggregate P tza es ps now) = map existingMpls (aggregate P tza es ps' now) \<and>
   map existingDia (aggregate P tza es ps now) = map existingDia (aggregate P tza es ps' now) \<and>
   map existingBroadband (aggregate P tza es ps now) =
     map existingBroadband (aggregate P tza es ps' now) \<and>
   map existingLte (aggregate P tza es ps now) = map existingLte (aggregate P tza es ps' now) \<and>
   map proposedMpls (aggregate P tza es ps now) = map proposedMpls (aggregate P tza es' ps now) \<and>
   map proposedDia (aggregate P tza es ps now) = map proposedDia (aggregate P tza es' ps now) \<and>
   map proposedBroadband (aggregate P tza es ps now) =
     map proposedBroadband (aggregate P tza es' ps now) \<and>
   map proposedLte (aggregate P tza es ps now) = map proposedLte (aggregate P tza es' ps now)"
proof -
  have e: "map (field_of k) (aggregate P tza es ps now) = map (field_of k) (aggregate P tza es ps' now)"
    if "k \<in> set [''existingMpls'', ''existingDia'', ''existingBroadband'', ''existingLte'']" for k
    unfolding aggregate_map_field
    by (simp only: bucket_existing_field [OF that, of P tza es ps]
        bucket_existing_field [OF that, of P tza es ps'])
  have p: "map (field_of k) (aggregate P tza es ps now) = map (field_of k) (aggregate P tza es' ps now)"
    if "k \<in> set [''proposedMpls'', ''proposedDia'', ''proposedBroadband'', ''proposedLte'']" for k
    unfolding aggregate_map_field
    by (simp only: bucket_proposed_field [OF that, of P tza es ps]
        bucket_proposed_field [OF that, of P tza es' ps])
  have s: "existingMpls = field_of ''existingMpls''" "existingDia = field_of ''existingDia''"
    "existingBroadband = field_of ''existingBroadband''" "existingLte = field_of ''existingLte''"
    "proposedMpls = field_of ''proposedMpls''" "proposedDia = field_of ''proposedDia''"
    "proposedBroadband = field_of ''proposedBroadband''" "proposedLte = field_of ''proposedLte''"
    by (rule ext, rule field_of_selectors)+
  show ?thesis
    unfolding s by (intro conjI e p) simp_all
qed

lemma bucket_field_nonneg:
  assumes "\<forall>c \<in> set es. 0 \<le> monthlycost c" and "\<forall>c \<in> set ps. 0 \<le> monthlycost c"
  shows "0 \<le> field_of k (month_bucket P tza es ps sd l i)"
proof -
  have "0 \<le> field_of k \<lparr>month = l, existingMpls = 0, existingDia = 0, existingBroadband = 0,
      existingLte = 0, proposedMpls = 0, proposedDia = 0, proposedBroadband = 0, proposedLte = 0\<rparr>"
    by (simp add: field_of_def)
  then show ?thesis
    unfolding month_bucket_def Let_def
    by (intro field_of_foldl_nonneg assms)
qed

lemma bucket_empty_lists:
  "month_bucket P tza [] [] sd l i =
     \<lparr>month = l, existingMpls = 0, existingDia = 0, existingBroadband = 0, existingLte = 0,
      proposedMpls = 0, proposedDia = 0, proposedBroadband = 0, proposedLte = 0\<rparr>"
  by (simp add: month_bucket_def)

text \<open>
  Claim C9. When the monthly cost of every item of both lists is non-negative, each of the
  eight numeric fields of each of the 36 buckets is non-negative. Every field starts at
  zero (it is zero in every bucket when both lists are empty) and is changed only by
  adding the cost of an item.
\<close>

theorem fields_nonnegative:
  assumes "\<forall>c \<in> set es. 0 \<le> monthlycost c" and "\<forall>c \<in> set ps. 0 \<le> monthlycost c"
    and "j < 36"
  shows "0 \<le> existingMpls (aggregate P tza es ps now ! j) \<and>
         0 \<le> existingDia (aggregate P tza es ps now ! j) \<and>
         0 \<le> existingBroadband (aggregate P tza es ps now ! j) \<and>
         0 \<le> existingLte (aggregate P tza es ps now ! j) \<and>
         0 \<le> proposedMpls (aggregate P tza es ps now ! j) \<and>
         0 \<le> proposedDia (aggregate P tza es ps now ! j) \<and>
         0 \<le> proposedBroadband (aggregate P tza es ps now ! j) \<and>
         0 \<le> proposedLte (aggregate P tza es ps now ! j) \<and>
         aggregate P tza [] [] now ! j =
           \<lparr>month = month_label tza (Some now) j,
            existingMpls = 0, existingDia = 0, existingBroadband = 0, existingLte = 0,
            proposedMpls = 0, proposedDia = 0, proposedBroadband = 0, proposedLte = 0\<rparr>"
  unfolding field_of_selectors aggregate_nth [OF assms(3)] bucket_empty_lists
  by (intro conjI bucket_field_nonneg assms(1,2) refl)

theorem fields_nonnegative_witness:
  "0 \<le> existingMpls
     (aggregate parse_iso_date 0
        [\<lparr>type = ''Mpls'', monthlycost = 100, contract_start_date = Some ''2024-01-15'',
          contract_end_date = Some ''2024-03-15''\<rparr>]
        [\<lparr>type = ''Lte'', monthlycost = 40, contract_start_date = Some ''2024-01-15'',
          contract_end_date = None\<rparr>] 1705276800000 ! 2) \<and>
   0 \<le> proposedLte
     (aggregate parse_iso_date 0
        [\<lparr>type = ''Mpls'', monthlycost = 100, contract_start_date = Some ''2024-01-15'',
          contract_end_date = Some ''2024-03-15''\<rparr>]
        [\<lparr>type = ''Lte'', monthlycost = 40, contract_start_date = Some ''2024-01-15'',
          contract_end_date = None\<rparr>] 1705276800000 ! 2)"
  using fields_nonnegative [of
      "[\<lparr>type = ''Mpls'', monthlycost = 100, contract_start_date = Some ''2024-01-15'',
          contract_end_date = Some ''2024-03-15''\<rparr>]"
      "[\<lparr>type = ''Lte'', monthlycost = 40, contract_start_date = Some ''2024-01-15'',
          contract_end_date = None\<rparr>]" 2 parse_iso_date 0 1705276800000]
  by simp

section \<open>Labels and month dates\<close>

lemma month_of_bucket: "month (month_bucket P tza es ps sd l i) = l"
  by (simp add: month_bucket_def Let_def month_foldl)

lemma anchor_2024_in_range: "anchor_in_range 1705276800000"
  by (simp add: anchor_in_range_def msPerDay_def)

lemma anchor_2024_plus_12: "anchor_month_plus 0 1705276800000 12 = (2025, 0)"
  by code_simp

lemma toString_2025: "Number_toString 2025 = ''2025''"
  by code_simp

text \<open>
  Claim C2. The series has exactly 36 entries, for every anchor and every two lists. For
  an anchor from which the 36 month dates are valid Dates, the label of entry \<open>i\<close> is the
  decimal year of the calendar month \<open>i\<close> months after the anchor's month when that month
  is January, and the empty string otherwise; the year string has four digits for the
  years 1000 to 9999.
\<close>

theorem series_length_and_labels:
  "length (timeline_data P tza (Some es) (Some ps) now) = 36 \<and>
   (anchor_in_range now \<and> i < 36 \<and> anchor_month_plus tza now i = (y, m) \<longrightarrow>
      month (timeline_data P tza (Some es) (Some ps) now ! i) =
        (if m = 0 then Number_toString y else '''') \<and>
      (1000 \<le> y \<and> y \<le> 9999 \<longrightarrow> length (Number_toString y) = 4))"
proof (intro conjI impI)
  show "length (timeline_data P tza (Some es) (Some ps) now) = 36"
    by (simp add: timeline_data_def aggregate_length)
next
  assume a: "anchor_in_range now \<and> i < 36 \<and> anchor_month_plus tza now i = (y, m)"
  then have ym: "y = YearFromTime (LocalTime tza now) + (MonthFromTime (LocalTime tza now) + int i) div 12"
    "m = (MonthFromTime (LocalTime tza now) + int i) mod 12"
    by (simp_all add: anchor_month_plus_def Let_def)
  have "month (timeline_data P tza (Some es) (Some ps) now ! i) = month_label tza (Some now) i"
    using a by (simp add: timeline_data_def aggregate_nth month_of_bucket)
  also have "\<dots> = (if m = 0 then Number_toString y else '''')"
    using a month_label_anchor [of now i "LocalTime tza now" tza] ym by simp
  finally show "month (timeline_data P tza (Some es) (Some ps) now ! i) =
      (if m = 0 then Number_toString y else '''')" .
next
  assume "1000 \<le> y \<and> y \<le> 9999"
  then show "length (Number_toString y) = 4"
    by (simp add: four_digits)
qed

theorem series_length_and_labels_witness:
  "anchor_in_range 1705276800000 \<and> anchor_month_plus 0 1705276800000 12 = (2025, 0) \<and>
   month (timeline_data parse_iso_date 0 (Some []) (Some []) 1705276800000 ! 12) = ''2025''"
  using series_length_and_labels [of parse_iso_date 0 "[]" "[]" 1705276800000 12 2025 0]
    anchor_2024_in_range anchor_2024_plus_12 toString_2025
  by simp

lemma bucket_field_insert_existing:
  "field_of k (month_bucket P tza (xs @ c # ys) ps sd l j) =
     field_of k (month_bucket P tza (xs @ ys) ps sd l j) +
       (if isCircuitActive P c (month_date tza sd j) \<and>
           ''existing'' @ strip_non_letters (type c) = k \<and> k \<in> set numeric_fields
        then monthlycost c else 0)"
proof -
  define d where "d = month_date tza sd j"
  define x where "x = (if isCircuitActive P c d \<and>
      ''existing'' @ strip_non_letters (type c) = k \<and> k \<in> set numeric_fields
      then monthlycost c else 0)"
  define m0 where "m0 = \<lparr>month = l, existingMpls = 0, existingDia = 0, existingBroadband = 0,
      existingLte = 0, proposedMpls = 0, proposedDia = 0, proposedBroadband = 0, proposedLte = (0::real)\<rparr>"
  define m1 where "m1 = foldl (accumulate P ''existing'' d) m0 xs"
  have "field_of k (accumulate P ''existing'' d m1 c) = field_of k m1 + x"
    by (simp add: field_of_accumulate x_def)
  then have "field_of k (foldl (accumulate P ''existing'' d) (accumulate P ''existing'' d m1 c) ys) =
      field_of k (foldl (accumulate P ''existing'' d) m1 ys) + x"
    by (rule field_of_foldl_shift)
  then have "field_of k (foldl (accumulate P ''proposed'' d)
        (foldl (accumulate P ''existing'' d) (accumulate P ''existing'' d m1 c) ys) ps) =
      field_of k (foldl (accumulate P ''proposed'' d) (foldl (accumulate P ''existing'' d) m1 ys) ps) + x"
    by (rule field_of_foldl_shift)
  then show ?thesis
    by (simp add: month_bucket_def Let_def d_def [symmetric] m0_def [symmetric] m1_def x_def)
qed

lemma bucket_field_insert_proposed:
  "field_of k (month_bucket P tza es (xs @ c # ys) sd l j) =
     field_of k (month_bucket P tza es (xs @ ys) sd l j) +
       (if isCircuitActive P c (month_date tza sd j) \<and>
           ''proposed'' @ strip_non_letters (type c) = k \<and> k \<in> set numeric_fields
        then monthlycost c else 0)"
proof -
  define d where "d = month_date tza sd j"
  define x where "x = (if isCircuitActive P c d \<and>
      ''proposed'' @ strip_non_letters (type c) = k \<and> k \<in> set numeric_fields
      then monthlycost c else 0)"
  define m0 where "m0 = \<lparr>month = l, existingMpls = 0, existingDia = 0, existingBroadband = 0,
      existingLte = 0, proposedMpls = 0, proposedDia = 0, proposedBroadband = 0, proposedLte = (0::real)\<rparr>"
  define m1 where "m1 = foldl (accumulate P ''proposed'' d) (foldl (accumulate P ''existing'' d) m0 es) xs"
  have "field_of k (accumulate P ''proposed'' d m1 c) = field_of k m1 + x"
    by (simp add: field_of_accumulate x_def)
  then have "field_of k (foldl (accumulate P ''proposed'' d) (accumulate P ''proposed'' d m1 c) ys) =
      field_of k (foldl (accumulate P ''proposed'' d) m1 ys) + x"
    by (rule field_of_foldl_shift)
  then show ?thesis
    by (simp add: month_bucket_def Let_def d_def [symmetric] m0_def [symmetric] m1_def x_def)
qed

lemma month_date_2024_2: "month_date 0 (Some 1705276800000) 2 = Some 1710460800000"
  by code_simp

text \<open>
  Claim C5. Take an item with no end date whose start date parses to the representative
  date of month index \<open>i\<close>, and whose key is one of the numeric fields. Then that field of
  bucket \<open>j\<close> is its value in the series computed without the item, plus the item's
  monthly cost (once) when \<open>i \<le> j\<close>, and unchanged when \<open>j < i\<close>. This holds for an item
  of the existing list and for an item of the proposed list.
\<close>

theorem open_ended_item_counted_from_start_month:
  fixes c :: Circuit
  assumes "anchor_in_range now" and "i < 36" and "j < 36"
    and "contract_start_date c = Some s" and "s \<noteq> []"
    and "P s = month_date tza (Some now) i"
    and "falsy (contract_end_date c)"
  shows "(''existing'' @ strip_non_letters (type c) \<in> set numeric_fields \<longrightarrow>
            field_of (''existing'' @ strip_non_letters (type c))
                (aggregate P tza (xs @ c # ys) ps now ! j) =
              field_of (''existing'' @ strip_non_letters (type c))
                (aggregate P tza (xs @ ys) ps now ! j) +
              (if i \<le> j then monthlycost c else 0)) \<and>
         (''proposed'' @ strip_non_letters (type c) \<in> set numeric_fields \<longrightarrow>
            field_of (''proposed'' @ strip_non_letters (type c))
                (aggregate P tza es (xs @ c # ys) now ! j) =
              field_of (''proposed'' @ strip_non_letters (type c))
                (aggregate P tza es (xs @ ys) now ! j) +
              (if i \<le> j then monthlycost c else 0))"
proof -
  have "isCircuitActive P c (month_date tza (Some now) j) \<longleftrightarrow>
      date_le (month_date tza (Some now) i) (month_date tza (Some now) j)"
    using assms(4-7) by (simp add: isCircuitActive_unfold falsy_def)
  then have active: "isCircuitActive P c (month_date tza (Some now) j) \<longleftrightarrow> i \<le> j"
    using date_le_month_date [OF assms(1-3)] by simp
  show ?thesis
    unfolding aggregate_nth [OF assms(3)] bucket_field_insert_existing bucket_field_insert_proposed
    using active by simp
qed

theorem open_ended_item_counted_from_start_month_witness:
  "field_of ''existingMpls''
     (aggregate parse_iso_date 0
        ([] @ \<lparr>type = ''Mpls'', monthlycost = 100, contract_start_date = Some ''2024-03-15'',
               contract_end_date = None\<rparr> # []) [] 1705276800000 ! 5) =
   field_of ''existingMpls'' (aggregate parse_iso_date 0 ([] @ []) [] 1705276800000 ! 5) + 100 \<and>
   field_of ''existingMpls''
     (aggregate parse_iso_date 0
        ([] @ \<lparr>type = ''Mpls'', monthlycost = 100, contract_start_date = Some ''2024-03-15'',
               contract_end_date = None\<rparr> # []) [] 1705276800000 ! 1) =
   field_of ''existingMpls'' (aggregate parse_iso_date 0 ([] @ []) [] 1705276800000 ! 1)"
  using
    open_ended_item_counted_from_start_month [of 1705276800000 2 5
      "\<lparr>type = ''Mpls'', monthlycost = 100, contract_start_date = Some ''2024-03-15'',
        contract_end_date = None\<rparr>" "''2024-03-15''" parse_iso_date 0 "[]" "[]" "[]"]
    open_ended_item_counted_from_start_month [of 1705276800000 2 1
      "\<lparr>type = ''Mpls'', monthlycost = 100, contract_start_date = Some ''2024-03-15'',
        contract_end_date = None\<rparr>" "''2024-03-15''" parse_iso_date 0 "[]" "[]" "[]"]
    anchor_2024_in_range parse_2024_03_15 month_date_2024_2
  by (simp add: falsy_def strip_non_letters_def is_letter_def numeric_fields_def)

section \<open>The example of the specification\<close>

text \<open>
  Claim C1. The example of the specification: anchor 2024-01-15 (midnight UTC, in the
  zone UTC) and one existing item of type \<^verbatim>\<open>MPLS\<close>, monthly cost 100, from 2024-01-15 to
  2024-03-15. The item is active at the month dates of indices 0, 1 and 2 and not at
  index 3, but its key is \<^verbatim>\<open>existingMPLS\<close>, which is not the field \<^verbatim>\<open>existingMpls\<close>: the
  component adds its cost to no bucket, and \<^verbatim>\<open>existingMpls\<close> is 0 in all 36 buckets.
\<close>

theorem example_mpls_item_is_dropped:
  "map existingMpls
     (aggregate parse_iso_date 0
        [\<lparr>type = ''MPLS'', monthlycost = 100, contract_start_date = Some ''2024-01-15'',
          contract_end_date = Some ''2024-03-15''\<rparr>] [] 1705276800000) = replicate 36 0 \<and>
   map (\<lambda>i. isCircuitActive parse_iso_date
               \<lparr>type = ''MPLS'', monthlycost = 100, contract_start_date = Some ''2024-01-15'',
                contract_end_date = Some ''2024-03-15''\<rparr>
               (month_date 0 (Some 1705276800000) i)) [0, 1, 2, 3] = [True, True, True, False] \<and>
   ''existing'' @ strip_non_letters ''MPLS'' = ''existingMPLS'' \<and>
   ''existingMPLS'' \<notin> set numeric_fields"
  by code_simp

lemma example_with_field_case:
  "map existingMpls
     (aggregate parse_iso_date 0
        [\<lparr>type = ''Mpls'', monthlycost = 100, contract_start_date = Some ''2024-01-15'',
          contract_end_date = Some ''2024-03-15''\<rparr>] [] 1705276800000) =
     [100, 100, 100] @ replicate 33 0"
  by code_simp

lemma example_at_noon:
  "map existingMpls
     (aggregate parse_iso_date 0
        [\<lparr>type = ''Mpls'', monthlycost = 100, contract_start_date = Some ''2024-01-15'',
          contract_end_date = Some ''2024-03-15''\<rparr>] [] 1705320000000) =
     [100, 100] @ replicate 34 0"
  by code_simp

end
